theory Spec2Isabelle
  imports Complex_Main
begin

section \<open>Polling-station simulation: the model of simulate.py\<close>

text \<open>
  Times, durations and rates are Python floats in the source; they are modelled as
  \<^typ>\<open>real\<close>, so rounding is not part of the model. Counts (\<open>max_num_voters\<close>,
  \<open>num_booths\<close>, \<open>hours_open\<close>, \<open>ntrials\<close>, seeds) are Python integers and modelled
  as \<^typ>\<open>int\<close>. Every exception the source can raise is a value of \<open>error\<close>; a call
  that would wait forever on the queue's condition variable is the value \<open>Blocked\<close>.
\<close>

datatype error = ZeroDivisionError | IndexError | TypeError | Blocked

subsection \<open>The random module\<close>

text \<open>
  \<open>random.seed(s)\<close> fixes the sequence of values that later calls of
  \<open>random.random()\<close> return. The generator itself is library code; the model takes
  the seeded sequence as a parameter \<open>rnd :: int \<Rightarrow> nat \<Rightarrow> real\<close> (seed, index of the
  draw) and keeps the number of draws consumed so far. \<open>random.expovariate(lambd)\<close>
  is the library's \<open>-log(1.0 - random()) / lambd\<close>: one draw, and a division that
  raises for \<open>lambd = 0\<close>.
\<close>

record random_state =
  stream :: "nat \<Rightarrow> real"
  consumed :: nat

definition seed :: "(int \<Rightarrow> nat \<Rightarrow> real) \<Rightarrow> int \<Rightarrow> random_state" where
  "seed rnd s = \<lparr>stream = rnd s, consumed = 0\<rparr>"

definition random :: "random_state \<Rightarrow> real \<times> random_state" where
  "random g = (stream g (consumed g), g\<lparr>consumed := Suc (consumed g)\<rparr>)"

definition expovariate :: "real \<Rightarrow> random_state \<Rightarrow> error + real \<times> random_state" where
  "expovariate lambd g =
     (case random g of (u, g') \<Rightarrow>
        if lambd = 0 then Inl ZeroDivisionError
        else Inr (- ln (1 - u) / lambd, g'))"

subsection \<open>Voter\<close>

record voter =
  arrival_time :: real
  voting_duration :: real
  start_time :: "real option"
  end_time :: "real option"

definition Voter :: "real \<Rightarrow> real \<Rightarrow> voter" where
  "Voter arrival duration =
     \<lparr>arrival_time = arrival, voting_duration = duration,
      start_time = None, end_time = None\<rparr>"

definition update_startend_times :: "voter \<Rightarrow> real \<Rightarrow> voter" where
  "update_startend_times v start =
     v\<lparr>start_time := Some start, end_time := Some (start + voting_duration v)\<rparr>"

subsection \<open>The booths: queue.PriorityQueue and VotingBooths\<close>

text \<open>
  \<open>queue.PriorityQueue(maxsize)\<close>: \<open>full()\<close> is \<open>0 < maxsize <= qsize()\<close>, so a
  queue with \<open>maxsize <= 0\<close> is unbounded. \<open>put\<close> on a full queue and \<open>get\<close> on an
  empty one wait for another thread; in this single-threaded program they never
  return. The heap is kept as an ascending list: \<open>get\<close> removes the least entry.
\<close>

record priority_queue =
  maxsize :: int
  items :: "real list"

definition PriorityQueue :: "int \<Rightarrow> priority_queue" where
  "PriorityQueue n = \<lparr>maxsize = n, items = []\<rparr>"

definition qsize :: "priority_queue \<Rightarrow> int" where
  "qsize q = int (length (items q))"

definition pq_full :: "priority_queue \<Rightarrow> bool" where
  "pq_full q \<longleftrightarrow> 0 < maxsize q \<and> maxsize q \<le> qsize q"

definition pq_put :: "priority_queue \<Rightarrow> real \<Rightarrow> error + priority_queue" where
  "pq_put q x =
     (if 0 < maxsize q \<and> maxsize q \<le> qsize q then Inl Blocked
      else Inr (q\<lparr>items := insort x (items q)\<rparr>))"

definition pq_get :: "priority_queue \<Rightarrow> error + real \<times> priority_queue" where
  "pq_get q =
     (case items q of
        [] \<Rightarrow> Inl Blocked
      | x # xs \<Rightarrow> Inr (x, q\<lparr>items := xs\<rparr>))"

record voting_booths =
  vb_num_booths :: int
  booths :: priority_queue

definition VotingBooths :: "int \<Rightarrow> voting_booths" where
  "VotingBooths n = \<lparr>vb_num_booths = n, booths = PriorityQueue n\<rparr>"

definition put :: "voting_booths \<Rightarrow> real \<Rightarrow> error + voting_booths" where
  "put b priority =
     (case pq_put (booths b) priority of
        Inl e \<Rightarrow> Inl e
      | Inr q \<Rightarrow> Inr (b\<lparr>booths := q\<rparr>))"

definition get :: "voting_booths \<Rightarrow> error + real \<times> voting_booths" where
  "get b =
     (case pq_get (booths b) of
        Inl e \<Rightarrow> Inl e
      | Inr (x, q) \<Rightarrow> Inr (x, b\<lparr>booths := q\<rparr>))"

definition full :: "voting_booths \<Rightarrow> bool" where
  "full b = pq_full (booths b)"

subsection \<open>Precinct\<close>

record precinct =
  name :: string
  minutes_open :: int
  max_num_voters :: int
  num_booths :: int
  arrival_rate :: real
  voting_duration_rate :: real

definition Precinct :: "string \<Rightarrow> int \<Rightarrow> int \<Rightarrow> int \<Rightarrow> real \<Rightarrow> real \<Rightarrow> precinct" where
  "Precinct nm hours_open max_voters nbooths arate vrate =
     \<lparr>name = nm, minutes_open = hours_open * 60, max_num_voters = max_voters,
      num_booths = nbooths, arrival_rate = arate, voting_duration_rate = vrate\<rparr>"

text \<open>
  One pass through the body of the generation loop up to the gap draw (lines 96 to
  100): the classification draw, the duration draw on the split-ticket branch only,
  then the gap draw. The result is the voting duration, the gap and the generator
  after the draws.
\<close>

definition candidate ::
  "precinct \<Rightarrow> real \<Rightarrow> real \<Rightarrow> random_state \<Rightarrow> error + real \<times> real \<times> random_state" where
  "candidate p percent_straight_ticket straight_ticket_duration g =
     (case random g of (u, g1) \<Rightarrow>
        (case (if u \<le> percent_straight_ticket then Inr (straight_ticket_duration, g1)
               else expovariate (voting_duration_rate p) g1) of
           Inl e \<Rightarrow> Inl e
         | Inr (duration, g2) \<Rightarrow>
             (case expovariate (arrival_rate p) g2 of
                Inl e \<Rightarrow> Inl e
              | Inr (gap, g3) \<Rightarrow> Inr (duration, gap, g3))))"

text \<open>The \<open>while\<close> loop of \<open>simulate\<close> (lines 95 to 105).\<close>

function gen_voters ::
  "precinct \<Rightarrow> real \<Rightarrow> real \<Rightarrow> voter list \<Rightarrow> real \<Rightarrow> random_state
     \<Rightarrow> error + voter list \<times> random_state" where
  "gen_voters p pst std voters cur_time g =
     (if int (length voters) + 1 \<le> max_num_voters p then
        (case candidate p pst std g of
           Inl e \<Rightarrow> Inl e
         | Inr (duration, gap, g') \<Rightarrow>
             if cur_time + gap > real_of_int (minutes_open p) then Inr (voters, g')
             else gen_voters p pst std
                    (voters @ [Voter (cur_time + gap) duration]) (cur_time + gap) g')
      else Inr (voters, g))"
  by pat_completeness auto
termination
  by (relation "measure (\<lambda>(p, pst, std, voters, cur_time, g).
        nat (max_num_voters p - int (length voters)))") auto

declare gen_voters.simps [simp del]

text \<open>The body of the \<open>for\<close> loop over the voters (lines 109 to 115).\<close>

definition assign_voter :: "voting_booths \<Rightarrow> voter \<Rightarrow> error + voter \<times> voting_booths" where
  "assign_voter b v =
     (if \<not> full b then
        (let v' = update_startend_times v (arrival_time v) in
         case end_time v' of
           None \<Rightarrow> Inl TypeError
         | Some e \<Rightarrow>
             (case put b e of Inl err \<Rightarrow> Inl err | Inr b' \<Rightarrow> Inr (v', b')))
      else
        (case get b of
           Inl err \<Rightarrow> Inl err
         | Inr (free, b1) \<Rightarrow>
             (let v' = update_startend_times v (max (arrival_time v) free) in
              case end_time v' of
                None \<Rightarrow> Inl TypeError
              | Some e \<Rightarrow>
                  (case put b1 e of Inl err \<Rightarrow> Inl err | Inr b' \<Rightarrow> Inr (v', b')))))"

fun assign_voters :: "voting_booths \<Rightarrow> voter list \<Rightarrow> error + voter list \<times> voting_booths" where
  "assign_voters b [] = Inr ([], b)"
| "assign_voters b (v # vs) =
     (case assign_voter b v of
        Inl e \<Rightarrow> Inl e
      | Inr (v', b') \<Rightarrow>
          (case assign_voters b' vs of
             Inl e \<Rightarrow> Inl e
           | Inr (vs', b'') \<Rightarrow> Inr (v' # vs', b'')))"

definition simulate ::
  "(int \<Rightarrow> nat \<Rightarrow> real) \<Rightarrow> precinct \<Rightarrow> real \<Rightarrow> real \<Rightarrow> int \<Rightarrow> error + voter list" where
  "simulate rnd p percent_straight_ticket straight_ticket_duration sd =
     (case gen_voters p percent_straight_ticket straight_ticket_duration [] 0 (seed rnd sd) of
        Inl e \<Rightarrow> Inl e
      | Inr (voters, g) \<Rightarrow>
          (case assign_voters (VotingBooths (num_booths p)) voters of
             Inl e \<Rightarrow> Inl e
           | Inr (voters', b) \<Rightarrow> Inr voters'))"

subsection \<open>find_avg_wait_time\<close>

text \<open>The precinct dictionary, with the keys the two search functions read.\<close>

record precinct_dict =
  pd_name :: string
  pd_hours_open :: int
  pd_num_voters :: int
  pd_num_booths :: int
  pd_arrival_rate :: real
  pd_voting_duration_rate :: real
  pd_straight_ticket_duration :: real

text \<open>The inner loop (lines 190 to 193); subtracting from an unset \<open>start_time\<close>
  would raise.\<close>

fun wait_times :: "voter list \<Rightarrow> error + real list" where
  "wait_times [] = Inr []"
| "wait_times (v # vs) =
     (case start_time v of
        None \<Rightarrow> Inl TypeError
      | Some s \<Rightarrow>
          (case wait_times vs of
             Inl e \<Rightarrow> Inl e
           | Inr ws \<Rightarrow> Inr ((s - arrival_time v) # ws)))"

text \<open>\<open>sum(wait_times) / len(wait_times)\<close> (line 194).\<close>

definition mean :: "real list \<Rightarrow> error + real" where
  "mean ws = (if length ws = 0 then Inl ZeroDivisionError
              else Inr (sum_list ws / real (length ws)))"

text \<open>The trial loop (lines 187 to 195), with the number of iterations left.\<close>

fun trials ::
  "(int \<Rightarrow> nat \<Rightarrow> real) \<Rightarrow> precinct \<Rightarrow> real \<Rightarrow> real \<Rightarrow> nat \<Rightarrow> int \<Rightarrow> real list
     \<Rightarrow> error + real list" where
  "trials rnd p pst std 0 sd avg_wait_times = Inr avg_wait_times"
| "trials rnd p pst std (Suc n) sd avg_wait_times =
     (case simulate rnd p pst std sd of
        Inl e \<Rightarrow> Inl e
      | Inr voters \<Rightarrow>
          (case wait_times voters of
             Inl e \<Rightarrow> Inl e
           | Inr ws \<Rightarrow>
               (case mean ws of
                  Inl e \<Rightarrow> Inl e
                | Inr m \<Rightarrow> trials rnd p pst std n (sd + 1) (avg_wait_times @ [m]))))"

text \<open>
  \<open>avg_wait_times[i]\<close>: positions \<open>0\<close> to \<open>len - 1\<close> are read directly,
  positions \<open>-len\<close> to \<open>-1\<close> are read from the back, anything else raises.
\<close>

definition index :: "real list \<Rightarrow> int \<Rightarrow> error + real" where
  "index xs i =
     (if 0 \<le> i \<and> i < int (length xs) then Inr (xs ! nat i)
      else if - int (length xs) \<le> i \<and> i < 0 then Inr (xs ! nat (int (length xs) + i))
      else Inl IndexError)"

text \<open>\<open>avg_wait_times.sort()\<close> and the return (lines 197 to 199).\<close>

definition median :: "real list \<Rightarrow> int \<Rightarrow> error + real" where
  "median avg_wait_times ntrials = index (sort avg_wait_times) (ntrials div 2)"

definition find_avg_wait_time ::
  "(int \<Rightarrow> nat \<Rightarrow> real) \<Rightarrow> precinct_dict \<Rightarrow> real \<Rightarrow> int \<Rightarrow> int \<Rightarrow> error + real" where
  "find_avg_wait_time rnd precinct percent_straight_ticket ntrials initial_seed =
     (let p = Precinct (pd_name precinct) (pd_hours_open precinct) (pd_num_voters precinct)
                (pd_num_booths precinct) (pd_arrival_rate precinct)
                (pd_voting_duration_rate precinct)
      in case trials rnd p percent_straight_ticket (pd_straight_ticket_duration precinct)
                (nat ntrials) initial_seed [] of
           Inl e \<Rightarrow> Inl e
         | Inr avg_wait_times \<Rightarrow> median avg_wait_times ntrials)"

subsection \<open>find_percent_split_ticket\<close>



subsection \<open>The statistics as the specification words them\<close>

text \<open>
  The mean of \<open>start_time - arrival_time\<close> over the voters of one run. The source
  computes it inside the trial loop (\<open>wait_times\<close> and \<open>mean\<close> above); this
  definition is the specification's wording, used to state what the loop returns.
\<close>

definition average_wait :: "voter list \<Rightarrow> real" where
  "average_wait vs = (\<Sum>v\<leftarrow>vs. the (start_time v) - arrival_time v) / real (length vs)"

text \<open>
  The place in the seeded sequence where the \<open>k\<close>-th candidate's classification
  draw is taken, when every straight-ticket candidate before it has consumed two
  draws and every split-ticket candidate three.
\<close>

fun candidate_start :: "(nat \<Rightarrow> real) \<Rightarrow> real \<Rightarrow> nat \<Rightarrow> nat" where
  "candidate_start u pst 0 = 0"
| "candidate_start u pst (Suc k) =
     candidate_start u pst k + (if u (candidate_start u pst k) \<le> pst then 2 else 3)"

subsection \<open>Example inputs\<close>

text \<open>
  Concrete draw sequences and configurations on which the theorems below are run.
  A draw of \<open>1 - exp (- c)\<close> makes an exponential variate of rate \<open>r\<close> equal to
  \<open>c / r\<close>; a draw of \<open>0\<close> makes it \<open>0\<close>.
\<close>

definition draws_e :: "int \<Rightarrow> nat \<Rightarrow> real" where
  "draws_e s i = 1 - exp (- 1)"

definition one_booth :: precinct where
  "one_booth = Precinct ''one booth'' 1 3 1 2 1"

definition no_booth :: precinct where
  "no_booth = Precinct ''no booth'' 1 3 0 2 1"

definition invalid_precinct :: precinct where
  "invalid_precinct = Precinct ''invalid'' 1 2 0 (- 1) (- 1)"

definition slow_arrivals :: precinct where
  "slow_arrivals = Precinct ''slow arrivals'' 1 3 1 (1 / 40) 1"

text \<open>
  A precinct whose first voter would arrive after closing, and a precinct with two
  voters and one booth. With the draws \<open>draws_trials\<close> the trials with seeds 0 to 4
  on \<open>two_voters\<close> have the average waits 1, 3, 2, 5 and 4.
\<close>

definition quiet_precinct :: precinct_dict where
  "quiet_precinct =
     \<lparr>pd_name = ''quiet'', pd_hours_open = 1, pd_num_voters = 5, pd_num_booths = 1,
      pd_arrival_rate = 1 / 100, pd_voting_duration_rate = 1,
      pd_straight_ticket_duration = 2\<rparr>"

definition two_voters :: precinct_dict where
  "two_voters =
     \<lparr>pd_name = ''two voters'', pd_hours_open = 1, pd_num_voters = 2, pd_num_booths = 1,
      pd_arrival_rate = 1, pd_voting_duration_rate = 1,
      pd_straight_ticket_duration = 2\<rparr>"

definition draws_trials :: "int \<Rightarrow> nat \<Rightarrow> real" where
  "draws_trials s i =
     1 - exp (- (if i = 1 then (if s = 0 then 3 else if s = 1 then 7 else if s = 2 then 5
                                else if s = 3 then 11 else 9)
                 else 1))"

text \<open>
  Draws whose first value is exactly \<open>0\<close>, the least value \<open>random.random()\<close>
  can return; and draws for which a run on \<open>two_voters\<close> has the average wait 1
  when \<open>percent_straight_ticket\<close> is at least one half and 3 below.
\<close>

definition draws_first_zero :: "int \<Rightarrow> nat \<Rightarrow> real" where
  "draws_first_zero s i = (if i = 0 then 0 else 1 - exp (- 1))"


text \<open>Two booths for three voters, and a precinct with a negative arrival rate.\<close>

definition two_booths :: precinct where
  "two_booths = Precinct ''two booths'' 1 3 2 2 1"

definition negative_rate :: precinct where
  "negative_rate = Precinct ''negative rate'' 1 2 1 (- 1) 1"

section \<open>Properties\<close>

lemmas run_simps =
  simulate_def Precinct_def seed_def gen_voters.simps candidate_def random_def
  expovariate_def Voter_def VotingBooths_def PriorityQueue_def assign_voter_def full_def
  pq_full_def qsize_def put_def get_def pq_put_def pq_get_def update_startend_times_def

lemmas trial_simps = find_avg_wait_time_def mean_def median_def index_def

subsection \<open>The assignment loop and the booth pool\<close>

text \<open>
  A pool is well-formed when it is unbounded or holds no more entries than its
  bound. From a well-formed pool one pass of the loop body always succeeds, fills a
  free booth at the arrival time or reuses the booth that is free first, and leaves a
  well-formed pool.
\<close>

lemma assign_voter_step:
  assumes "maxsize (booths b) \<le> 0 \<or> int (length (items (booths b))) \<le> maxsize (booths b)"
  shows "\<exists>s q. assign_voter b v = Inr (update_startend_times v s, b\<lparr>booths := q\<rparr>)
           \<and> arrival_time v \<le> s
           \<and> maxsize q = maxsize (booths b)
           \<and> (\<not> full b \<longrightarrow> s = arrival_time v
                 \<and> length (items q) = Suc (length (items (booths b))))
           \<and> (full b \<longrightarrow> length (items q) = length (items (booths b)))"
proof (cases "full b")
  case False
  then show ?thesis
    by (simp add: assign_voter_def update_startend_times_def put_def pq_put_def
        full_def pq_full_def qsize_def)
      (rule exI [of _ "booths b\<lparr>items := insort (arrival_time v + voting_duration v) (items (booths b))\<rparr>"], simp)
next
  case True
  then obtain x xs where xs: "items (booths b) = x # xs"
    by (cases "items (booths b)") (auto simp: full_def pq_full_def qsize_def)
  with True assms show ?thesis
    by (simp add: assign_voter_def update_startend_times_def put_def pq_put_def
        get_def pq_get_def full_def pq_full_def qsize_def)
      (rule exI [of _ "max (arrival_time v) x"], simp,
       rule exI [of _ "booths b\<lparr>items := insort (max (arrival_time v) x + voting_duration v) xs\<rparr>"], simp)
qed

lemma assign_voters_inv:
  assumes "maxsize (booths b) \<le> 0 \<or> int (length (items (booths b))) \<le> maxsize (booths b)"
  shows "\<exists>vs' b'. assign_voters b vs = Inr (vs', b')
           \<and> maxsize (booths b') = maxsize (booths b)
           \<and> int (length (items (booths b'))) =
               (if 0 < maxsize (booths b)
                then min (maxsize (booths b)) (int (length (items (booths b)) + length vs))
                else int (length (items (booths b)) + length vs))
           \<and> list_all2 (\<lambda>v v'. \<exists>s. v' = update_startend_times v s \<and> arrival_time v \<le> s) vs vs'
           \<and> (maxsize (booths b) \<le> 0 \<longrightarrow>
                 vs' = map (\<lambda>v. update_startend_times v (arrival_time v)) vs)"
  using assms
proof (induction vs arbitrary: b)
  case Nil
  then show ?case by auto
next
  case (Cons v vs)
  from assign_voter_step [OF Cons.prems, of v]
  obtain s q where st: "assign_voter b v = Inr (update_startend_times v s, b\<lparr>booths := q\<rparr>)"
    and s: "arrival_time v \<le> s" and mq: "maxsize q = maxsize (booths b)"
    and nf: "\<not> full b \<Longrightarrow> s = arrival_time v \<and> length (items q) = Suc (length (items (booths b)))"
    and fl: "full b \<Longrightarrow> length (items q) = length (items (booths b))"
    by blast
  let ?b1 = "b\<lparr>booths := q\<rparr>"
  have inv1: "maxsize (booths ?b1) \<le> 0 \<or> int (length (items (booths ?b1))) \<le> maxsize (booths ?b1)"
    using Cons.prems mq nf fl by (cases "full b") (auto simp: full_def pq_full_def qsize_def)
  from Cons.IH [OF inv1]
  obtain vs' b' where rest: "assign_voters ?b1 vs = Inr (vs', b')"
    and m': "maxsize (booths b') = maxsize (booths ?b1)"
    and len': "int (length (items (booths b'))) =
               (if 0 < maxsize (booths ?b1)
                then min (maxsize (booths ?b1)) (int (length (items (booths ?b1)) + length vs))
                else int (length (items (booths ?b1)) + length vs))"
    and all': "list_all2 (\<lambda>v v'. \<exists>s. v' = update_startend_times v s \<and> arrival_time v \<le> s) vs vs'"
    and un': "maxsize (booths ?b1) \<le> 0 \<longrightarrow>
                 vs' = map (\<lambda>v. update_startend_times v (arrival_time v)) vs"
    by blast
  have res: "assign_voters b (v # vs) = Inr (update_startend_times v s # vs', b')"
    using st rest by simp
  have len: "int (length (items (booths b'))) =
               (if 0 < maxsize (booths b)
                then min (maxsize (booths b)) (int (length (items (booths b)) + length (v # vs)))
                else int (length (items (booths b)) + length (v # vs)))"
    using len' mq nf fl Cons.prems by (cases "full b") (auto simp: full_def pq_full_def qsize_def)
  have un: "maxsize (booths b) \<le> 0 \<longrightarrow>
      update_startend_times v s # vs' = map (\<lambda>v. update_startend_times v (arrival_time v)) (v # vs)"
    using un' mq nf by (auto simp: full_def pq_full_def)
  show ?case
    using res m' mq len all' s un by auto
qed

lemma assign_voters_append:
  "assign_voters b (xs @ ys) =
     (case assign_voters b xs of
        Inl e \<Rightarrow> Inl e
      | Inr (xs', b') \<Rightarrow>
          (case assign_voters b' ys of
             Inl e \<Rightarrow> Inl e
           | Inr (ys', b'') \<Rightarrow> Inr (xs' @ ys', b'')))"
  by (induction xs arbitrary: b) (auto split: sum.splits)

lemma VotingBooths_wf:
  "maxsize (booths (VotingBooths n)) \<le> 0
     \<or> int (length (items (booths (VotingBooths n)))) \<le> maxsize (booths (VotingBooths n))"
  by (auto simp: VotingBooths_def PriorityQueue_def)

text \<open>
  The pool's list stays ascending, so the entry that \<open>get\<close> removes is the least
  free-time, as the heap of \<open>queue.PriorityQueue\<close> returns it.
\<close>

lemma pq_put_sorted:
  "sorted (items q) \<Longrightarrow> pq_put q x = Inr q'
     \<Longrightarrow> sorted (items q') \<and> set (items q') = insert x (set (items q))"
  by (auto simp: pq_put_def sorted_insort set_insort_key split: if_splits)

lemma pq_get_least:
  "sorted (items q) \<Longrightarrow> pq_get q = Inr (x, q')
     \<Longrightarrow> (\<forall>y\<in>set (items q). x \<le> y) \<and> sorted (items q')"
  by (auto simp: pq_get_def split: list.splits)

lemma assign_voter_sorted:
  "sorted (items (booths b)) \<Longrightarrow> assign_voter b v = Inr (v', b')
     \<Longrightarrow> sorted (items (booths b'))"
  by (auto simp: assign_voter_def put_def get_def pq_put_def pq_get_def sorted_insort
        update_startend_times_def Let_def
      split: if_splits sum.splits list.splits)

lemma assign_voters_sorted:
  "sorted (items (booths b)) \<Longrightarrow> assign_voters b vs = Inr (vs', b')
     \<Longrightarrow> sorted (items (booths b'))"
proof (induction vs arbitrary: b vs' b')
  case Nil
  then show ?case by simp
next
  case (Cons v vs)
  from Cons.prems(2) obtain v1 b1 vs1 where
    one: "assign_voter b v = Inr (v1, b1)" and rest: "assign_voters b1 vs = Inr (vs1, b')"
    by (auto split: sum.splits)
  from assign_voter_sorted [OF Cons.prems(1) one] have "sorted (items (booths b1))" .
  from Cons.IH [OF this rest] show ?case .
qed

subsection \<open>The generation loop\<close>

text \<open>
  The draws of one candidate, written out: the classification draw is the draw at
  the generator's position, and the later draws follow it in the sequence.
\<close>

lemma candidate_random:
  "candidate p pst std g =
     (if stream g (consumed g) \<le> pst then
        (if arrival_rate p = 0 then Inl ZeroDivisionError
         else Inr (std, - ln (1 - stream g (Suc (consumed g))) / arrival_rate p,
                   g\<lparr>consumed := consumed g + 2\<rparr>))
      else
        (if voting_duration_rate p = 0 then Inl ZeroDivisionError
         else if arrival_rate p = 0 then Inl ZeroDivisionError
         else Inr (- ln (1 - stream g (Suc (consumed g))) / voting_duration_rate p,
                   - ln (1 - stream g (Suc (Suc (consumed g)))) / arrival_rate p,
                   g\<lparr>consumed := consumed g + 3\<rparr>)))"
  by (simp add: candidate_def random_def expovariate_def)

lemma candidate_error: "candidate p pst std g = Inl e \<Longrightarrow> e = ZeroDivisionError"
  by (simp add: candidate_random split: if_splits)

lemma candidate_gap:
  assumes "candidate p pst std g = Inr (d, gap, g')"
    and "0 < arrival_rate p" and "\<forall>i. 0 \<le> stream g i \<and> stream g i < 1"
  shows "0 \<le> gap \<and> stream g' = stream g"
proof -
  have ln: "ln (1 - stream g i) \<le> 0" for i
    using assms(3) by (simp add: ln_le_zero_iff)
  have "0 \<le> - ln (1 - stream g i) / arrival_rate p" for i
    using ln [of i] assms(2) by (simp add: divide_nonpos_pos)
  with assms(1) show ?thesis
    by (auto simp: candidate_random split: if_splits)
qed

lemma candidate_total:
  "arrival_rate p \<noteq> 0 \<Longrightarrow> voting_duration_rate p \<noteq> 0
     \<Longrightarrow> \<exists>d gap g'. candidate p pst std g = Inr (d, gap, g')"
  by (simp add: candidate_random)

lemma gen_voters_total:
  assumes "arrival_rate p \<noteq> 0" and "voting_duration_rate p \<noteq> 0"
  shows "\<exists>vs g'. gen_voters p pst std voters t g = Inr (vs, g')"
  using assms
proof (induction p pst std voters t g rule: gen_voters.induct)
  case (1 p pst std voters cur_time g)
  show ?case
  proof (cases "int (length voters) + 1 \<le> max_num_voters p")
    case False
    then show ?thesis by (subst gen_voters.simps) simp
  next
    case True
    from candidate_total [OF "1.prems"]
    obtain d gap g' where c: "candidate p pst std g = Inr (d, gap, g')"
      by blast
    show ?thesis
    proof (cases "cur_time + gap > real_of_int (minutes_open p)")
      case True
      with \<open>int (length voters) + 1 \<le> max_num_voters p\<close> c show ?thesis
        by (subst gen_voters.simps) simp
    next
      case False
      from "1.IH" [OF \<open>int (length voters) + 1 \<le> max_num_voters p\<close> c refl refl False "1.prems"]
      show ?thesis
        using \<open>int (length voters) + 1 \<le> max_num_voters p\<close> c False
        by (subst gen_voters.simps) simp
    qed
  qed
qed

lemma gen_voters_stop:
  "\<not> int (length voters) + 1 \<le> max_num_voters p
     \<Longrightarrow> gen_voters p pst std voters t g = Inr (voters, g)"
  by (subst gen_voters.simps) simp

lemma gen_voters_raise:
  "int (length voters) + 1 \<le> max_num_voters p \<Longrightarrow> candidate p pst std g = Inl e
     \<Longrightarrow> gen_voters p pst std voters t g = Inl e"
  by (subst gen_voters.simps) simp

lemma gen_voters_break:
  "int (length voters) + 1 \<le> max_num_voters p \<Longrightarrow> candidate p pst std g = Inr (d, gap, g')
     \<Longrightarrow> t + gap > real_of_int (minutes_open p)
     \<Longrightarrow> gen_voters p pst std voters t g = Inr (voters, g')"
  by (subst gen_voters.simps) simp

lemma gen_voters_append:
  "int (length voters) + 1 \<le> max_num_voters p \<Longrightarrow> candidate p pst std g = Inr (d, gap, g')
     \<Longrightarrow> \<not> t + gap > real_of_int (minutes_open p)
     \<Longrightarrow> gen_voters p pst std voters t g =
         gen_voters p pst std (voters @ [Voter (t + gap) d]) (t + gap) g'"
  by (subst gen_voters.simps) simp

lemma gen_voters_error:
  "gen_voters p pst std voters t g = Inl e
     \<Longrightarrow> e = ZeroDivisionError \<and> (arrival_rate p = 0 \<or> voting_duration_rate p = 0)
         \<and> 1 \<le> max_num_voters p"
proof (induction p pst std voters t g rule: gen_voters.induct)
  case (1 p pst std voters cur_time g)
  have cond: "int (length voters) + 1 \<le> max_num_voters p"
    using "1.prems" gen_voters_stop [of voters p pst std cur_time g] by auto
  show ?case
  proof (cases "candidate p pst std g")
    case (Inl e')
    with cond "1.prems" have "e' = e" by (simp add: gen_voters_raise)
    with Inl cond show ?thesis
      by (auto simp: candidate_random split: if_splits)
  next
    case (Inr r)
    then obtain d gap g' where c: "candidate p pst std g = Inr (d, gap, g')"
      by (cases r) auto
    show ?thesis
    proof (cases "cur_time + gap > real_of_int (minutes_open p)")
      case True
      with cond c "1.prems" show ?thesis by (simp add: gen_voters_break)
    next
      case False
      with cond c "1.prems"
      have "gen_voters p pst std (voters @ [Voter (cur_time + gap) d]) (cur_time + gap) g' = Inl e"
        by (simp add: gen_voters_append)
      from "1.IH" [OF cond c refl refl False this] show ?thesis .
    qed
  qed
qed

lemma gen_voters_arrivals:
  assumes "gen_voters p pst std voters t g = Inr (vs, g')"
    and "0 < arrival_rate p" and "\<forall>i. 0 \<le> stream g i \<and> stream g i < 1"
  shows "\<exists>new. vs = voters @ new \<and> sorted (map arrival_time new)
           \<and> (\<forall>v\<in>set new. t \<le> arrival_time v \<and> arrival_time v \<le> real_of_int (minutes_open p))
           \<and> (int (length voters) \<le> max_num_voters p \<longrightarrow> int (length vs) \<le> max_num_voters p)"
  using assms
proof (induction p pst std voters t g rule: gen_voters.induct)
  case (1 p pst std voters cur_time g)
  show ?case
  proof (cases "int (length voters) + 1 \<le> max_num_voters p")
    case False
    with "1.prems"(1) show ?thesis by (simp add: gen_voters_stop)
  next
    case cond: True
    show ?thesis
    proof (cases "candidate p pst std g")
      case (Inl e')
      with cond "1.prems"(1) show ?thesis by (simp add: gen_voters_raise)
    next
      case (Inr r)
      then obtain d gap gn where c: "candidate p pst std g = Inr (d, gap, gn)"
        by (cases r) auto
      from candidate_gap [OF c "1.prems"(2,3)]
      have gap: "0 \<le> gap" and str: "stream gn = stream g" by auto
      show ?thesis
      proof (cases "cur_time + gap > real_of_int (minutes_open p)")
        case True
        with cond c "1.prems"(1) show ?thesis by (simp add: gen_voters_break)
      next
        case False
        with cond c "1.prems"(1)
        have rec: "gen_voters p pst std (voters @ [Voter (cur_time + gap) d]) (cur_time + gap) gn
                 = Inr (vs, g')"
          by (simp add: gen_voters_append)
        have str': "\<forall>i. 0 \<le> stream gn i \<and> stream gn i < 1"
          using "1.prems"(3) str by simp
        from "1.IH" [OF cond c refl refl False rec "1.prems"(2) str']
        obtain new where new: "vs = (voters @ [Voter (cur_time + gap) d]) @ new"
          and srt: "sorted (map arrival_time new)"
          and rng: "\<forall>v\<in>set new. cur_time + gap \<le> arrival_time v
                      \<and> arrival_time v \<le> real_of_int (minutes_open p)"
          and len: "int (length (voters @ [Voter (cur_time + gap) d])) \<le> max_num_voters p
                      \<longrightarrow> int (length vs) \<le> max_num_voters p"
          by blast
        have "vs = voters @ (Voter (cur_time + gap) d # new)"
          using new by simp
        moreover have "sorted (map arrival_time (Voter (cur_time + gap) d # new))"
          using srt rng by (auto simp: Voter_def)
        moreover have "\<forall>v\<in>set (Voter (cur_time + gap) d # new).
            cur_time \<le> arrival_time v \<and> arrival_time v \<le> real_of_int (minutes_open p)"
          using rng gap False by (auto simp: Voter_def)
        moreover have "int (length vs) \<le> max_num_voters p"
          using len cond by simp
        ultimately show ?thesis by blast
      qed
    qed
  qed
qed

subsection \<open>simulate\<close>

text \<open>
  The assignment loop starts from an empty pool and therefore never fails: a run of
  \<open>simulate\<close> fails exactly when its generation loop does, and that is the division
  by a rate of zero.
\<close>

lemma seed_stream: "stream (seed rnd sd) = rnd sd"
  by (simp add: seed_def)

lemma simulate_Inl:
  "simulate rnd p pst std sd = Inl e \<longleftrightarrow> gen_voters p pst std [] 0 (seed rnd sd) = Inl e"
proof (cases "gen_voters p pst std [] 0 (seed rnd sd)")
  case (Inl e')
  then show ?thesis by (simp add: simulate_def)
next
  case (Inr r)
  then obtain voters g where gen: "gen_voters p pst std [] 0 (seed rnd sd) = Inr (voters, g)"
    by (cases r) auto
  from assign_voters_inv [OF VotingBooths_wf, of "num_booths p" voters]
  obtain vs b where "assign_voters (VotingBooths (num_booths p)) voters = Inr (vs, b)"
    by blast
  with gen show ?thesis by (simp add: simulate_def)
qed

lemma simulate_total:
  assumes "arrival_rate p \<noteq> 0" and "voting_duration_rate p \<noteq> 0"
  shows "\<exists>vs. simulate rnd p pst std sd = Inr vs"
proof (cases "simulate rnd p pst std sd")
  case (Inl e)
  then have "gen_voters p pst std [] 0 (seed rnd sd) = Inl e"
    by (simp add: simulate_Inl)
  with gen_voters_total [OF assms, of pst std "[]" 0 "seed rnd sd"] show ?thesis
    by auto
next
  case (Inr vs)
  then show ?thesis by blast
qed

lemma simulate_error:
  "simulate rnd p pst std sd = Inl e
     \<Longrightarrow> e = ZeroDivisionError \<and> (arrival_rate p = 0 \<or> voting_duration_rate p = 0)
         \<and> 1 \<le> max_num_voters p"
  by (simp add: simulate_Inl gen_voters_error)

lemma simulate_voters:
  assumes "simulate rnd p pst std sd = Inr vs"
  shows "\<forall>v\<in>set vs. \<exists>s. start_time v = Some s \<and> arrival_time v \<le> s
           \<and> end_time v = Some (s + voting_duration v)"
proof -
  from assms obtain voters g b where
    a: "assign_voters (VotingBooths (num_booths p)) voters = Inr (vs, b)"
    by (auto simp: simulate_def split: sum.splits)
  from assign_voters_inv [OF VotingBooths_wf, of "num_booths p" voters] a
  have all: "list_all2 (\<lambda>v v'. \<exists>s. v' = update_startend_times v s \<and> arrival_time v \<le> s)
               voters vs"
    by auto
  show ?thesis
  proof
    fix v' assume "v' \<in> set vs"
    then obtain i where i: "i < length vs" and v': "v' = vs ! i"
      by (auto simp: in_set_conv_nth)
    from all i obtain s where "vs ! i = update_startend_times (voters ! i) s"
      and "arrival_time (voters ! i) \<le> s"
      by (auto simp: list_all2_conv_all_nth)
    with v' show "\<exists>s. start_time v' = Some s \<and> arrival_time v' \<le> s
           \<and> end_time v' = Some (s + voting_duration v')"
      by (auto simp: update_startend_times_def)
  qed
qed

subsection \<open>The trial loop\<close>

text \<open>
  Every voter that \<open>simulate\<close> returns has a start time, so the subtraction in the
  inner loop never meets an unset value; the only failure of the trial loop is a
  division by zero, from a draw at rate zero or from the mean of an empty run.
\<close>

lemma wait_times_started:
  "\<forall>v\<in>set vs. \<exists>s. start_time v = Some s
     \<Longrightarrow> wait_times vs = Inr (map (\<lambda>v. the (start_time v) - arrival_time v) vs)"
  by (induction vs) auto

lemma simulate_wait_times:
  assumes "simulate rnd p pst std sd = Inr vs"
  shows "wait_times vs = Inr (map (\<lambda>v. the (start_time v) - arrival_time v) vs)"
proof (rule wait_times_started)
  from simulate_voters [OF assms]
  show "\<forall>v\<in>set vs. \<exists>s. start_time v = Some s" by blast
qed

lemma trials_error:
  "trials rnd p pst std n sd acc = Inl e \<Longrightarrow> e = ZeroDivisionError"
proof (induction n arbitrary: sd acc)
  case 0
  then show ?case by simp
next
  case (Suc n)
  show ?case
  proof (cases "simulate rnd p pst std sd")
    case (Inl e')
    with Suc.prems have "e' = e" by simp
    with Inl simulate_error [of rnd p pst std sd e] show ?thesis by simp
  next
    case (Inr vs)
    note w = simulate_wait_times [OF Inr]
    show ?thesis
    proof (cases "vs = []")
      case True
      with Inr w Suc.prems show ?thesis by (simp add: mean_def)
    next
      case False
      with Inr w Suc.prems Suc.IH show ?thesis
        by (auto simp: mean_def)
    qed
  qed
qed

lemma trials_empty:
  "k < n \<Longrightarrow> simulate rnd p pst std (sd + int k) = Inr []
     \<Longrightarrow> trials rnd p pst std n sd acc = Inl ZeroDivisionError"
proof (induction n arbitrary: sd acc k)
  case 0
  then show ?case by simp
next
  case (Suc n)
  show ?case
  proof (cases k)
    case 0
    with Suc.prems show ?thesis by (simp add: mean_def)
  next
    case (Suc k')
    with Suc.prems have k': "k' < n"
      and s': "simulate rnd p pst std ((sd + 1) + int k') = Inr []"
      by (simp_all add: algebra_simps)
    note ih = Suc.IH [OF k' s']
    show ?thesis
    proof (cases "trials rnd p pst std (Suc n) sd acc")
      case (Inl e)
      from trials_error [OF Inl] have "e = ZeroDivisionError" .
      with Inl show ?thesis by (simp only:)
    next
      case (Inr r)
      then show ?thesis
        using ih by (auto split: sum.splits)
    qed
  qed
qed

lemma trials_success:
  "\<forall>k<n. \<exists>vs. simulate rnd p pst std (sd + int k) = Inr vs \<and> vs \<noteq> []
     \<Longrightarrow> trials rnd p pst std n sd acc
         = Inr (acc @ map (\<lambda>k. average_wait (projr (simulate rnd p pst std (sd + int k)))) [0..<n])"
proof (induction n arbitrary: sd acc)
  case 0
  then show ?case by simp
next
  case (Suc n)
  from Suc.prems obtain vs where s: "simulate rnd p pst std sd = Inr vs" and ne: "vs \<noteq> []"
    by force
  note w = simulate_wait_times [OF s]
  have m: "mean (map (\<lambda>v. the (start_time v) - arrival_time v) vs) = Inr (average_wait vs)"
    using ne by (simp add: mean_def average_wait_def)
  have rest: "\<forall>k<n. \<exists>vs. simulate rnd p pst std ((sd + 1) + int k) = Inr vs \<and> vs \<noteq> []"
  proof (intro allI impI)
    fix k assume "k < n"
    then have "Suc k < Suc n" by simp
    with Suc.prems have "\<exists>vs. simulate rnd p pst std (sd + int (Suc k)) = Inr vs \<and> vs \<noteq> []"
      by blast
    then show "\<exists>vs. simulate rnd p pst std ((sd + 1) + int k) = Inr vs \<and> vs \<noteq> []"
      by (simp add: algebra_simps)
  qed
  have shift: "map (\<lambda>k. average_wait (projr (simulate rnd p pst std (sd + int k)))) [0..<Suc n]
      = average_wait vs # map (\<lambda>k. average_wait (projr (simulate rnd p pst std ((sd + 1) + int k)))) [0..<n]"
  proof -
    have "[0..<Suc n] = 0 # map Suc [0..<n]"
      by (simp add: upt_conv_Cons map_Suc_upt del: upt_Suc)
    then show ?thesis
      using s by (simp add: o_def algebra_simps del: upt_Suc)
  qed
  show ?case
    using s w m Suc.IH [OF rest, of "acc @ [average_wait vs]"] shift
    by (simp del: upt_Suc)
qed

lemma trials_five:
  "trials rnd p pst std 5 sd acc = trials rnd p pst std (Suc (Suc (Suc (Suc (Suc 0))))) sd acc"
  by (simp add: eval_nat_numeral)

subsection \<open>The sweep\<close>












subsection \<open>The draws of a run\<close>

text \<open>
  One candidate advances the generator by two draws when it is straight-ticket and
  by three when it is split-ticket. Through the loop, the candidate that follows
  \<open>k\<close> recorded voters therefore starts at \<open>candidate_start\<close> of \<open>k\<close>, and the
  voter's duration and arrival are computed from the draws at that place.
\<close>

lemma candidate_step:
  assumes "candidate p pst std g = Inr (d, gap, g')"
  shows "stream g' = stream g
       \<and> consumed g' = consumed g + (if stream g (consumed g) \<le> pst then 2 else 3)
       \<and> d = (if stream g (consumed g) \<le> pst then std
               else - ln (1 - stream g (consumed g + 1)) / voting_duration_rate p)
       \<and> gap = (if stream g (consumed g) \<le> pst
                 then - ln (1 - stream g (consumed g + 1)) / arrival_rate p
                 else - ln (1 - stream g (consumed g + 2)) / arrival_rate p)"
  using assms by (auto simp: candidate_random split: if_splits)

lemma gen_voters_draws:
  assumes "gen_voters p pst std voters t g = Inr (vs, g')"
    and "consumed g = candidate_start (stream g) pst (length voters)"
  shows "stream g' = stream g
       \<and> consumed g' = candidate_start (stream g) pst
            (if int (length vs) + 1 \<le> max_num_voters p then Suc (length vs) else length vs)
       \<and> length voters \<le> length vs \<and> take (length voters) vs = voters
       \<and> (\<forall>k. length voters \<le> k \<and> k < length vs \<longrightarrow>
             voting_duration (vs ! k) =
               (if stream g (candidate_start (stream g) pst k) \<le> pst then std
                else - ln (1 - stream g (candidate_start (stream g) pst k + 1))
                       / voting_duration_rate p)
           \<and> arrival_time (vs ! k) =
               (if k = length voters then t else arrival_time (vs ! (k - 1)))
               + (if stream g (candidate_start (stream g) pst k) \<le> pst
                  then - ln (1 - stream g (candidate_start (stream g) pst k + 1)) / arrival_rate p
                  else - ln (1 - stream g (candidate_start (stream g) pst k + 2)) / arrival_rate p))"
  using assms
proof (induction p pst std voters t g rule: gen_voters.induct)
  case (1 p pst std voters cur_time g)
  let ?u = "stream g"
  let ?n = "length voters"
  show ?case
  proof (cases "int (length voters) + 1 \<le> max_num_voters p")
    case False
    with "1.prems" show ?thesis by (simp add: gen_voters_stop)
  next
    case cond: True
    show ?thesis
    proof (cases "candidate p pst std g")
      case (Inl e')
      with cond "1.prems"(1) show ?thesis by (simp add: gen_voters_raise)
    next
      case (Inr r)
      then obtain d gap gn where c: "candidate p pst std g = Inr (d, gap, gn)"
        by (cases r) auto
      note cs = candidate_step [OF c]
      from cs have str: "stream gn = ?u" by simp
      from cs "1.prems"(2) have pos: "consumed gn = candidate_start ?u pst (Suc ?n)"
        by simp
      from cs "1.prems"(2) have dur: "d = (if ?u (candidate_start ?u pst ?n) \<le> pst then std
               else - ln (1 - ?u (candidate_start ?u pst ?n + 1)) / voting_duration_rate p)"
        by simp
      from cs "1.prems"(2) have gp: "gap = (if ?u (candidate_start ?u pst ?n) \<le> pst
                 then - ln (1 - ?u (candidate_start ?u pst ?n + 1)) / arrival_rate p
                 else - ln (1 - ?u (candidate_start ?u pst ?n + 2)) / arrival_rate p)"
        by simp
      show ?thesis
      proof (cases "cur_time + gap > real_of_int (minutes_open p)")
        case True
        with cond c "1.prems"(1) have "vs = voters" and "g' = gn"
          by (simp_all add: gen_voters_break)
        with cond str pos show ?thesis by simp
      next
        case False
        let ?v = "Voter (cur_time + gap) d"
        from False cond c "1.prems"(1)
        have rec: "gen_voters p pst std (voters @ [?v]) (cur_time + gap) gn = Inr (vs, g')"
          by (simp add: gen_voters_append)
        have pos': "consumed gn = candidate_start (stream gn) pst (length (voters @ [?v]))"
          using pos str by simp
        note ih = "1.IH" [OF cond c refl refl False rec pos']
        from ih have s': "stream g' = ?u" using str by simp
        from ih have cn: "consumed g' = candidate_start ?u pst
            (if int (length vs) + 1 \<le> max_num_voters p then Suc (length vs) else length vs)"
          using str by simp
        from ih have len: "Suc ?n \<le> length vs" by simp
        from ih have tk: "take (Suc ?n) vs = voters @ [?v]" by simp
        have tk0: "take ?n vs = voters"
        proof -
          have "take ?n (take (Suc ?n) vs) = take ?n (voters @ [?v])"
            by (simp only: tk)
          then show ?thesis by simp
        qed
        have nth: "vs ! ?n = ?v"
        proof -
          have "take (Suc ?n) vs ! ?n = (voters @ [?v]) ! ?n" by (simp only: tk)
          then show ?thesis by simp
        qed
        have body: "voting_duration (vs ! k) =
               (if ?u (candidate_start ?u pst k) \<le> pst then std
                else - ln (1 - ?u (candidate_start ?u pst k + 1)) / voting_duration_rate p)
           \<and> arrival_time (vs ! k) =
               (if k = ?n then cur_time else arrival_time (vs ! (k - 1)))
               + (if ?u (candidate_start ?u pst k) \<le> pst
                  then - ln (1 - ?u (candidate_start ?u pst k + 1)) / arrival_rate p
                  else - ln (1 - ?u (candidate_start ?u pst k + 2)) / arrival_rate p)"
          if k: "?n \<le> k" "k < length vs" for k
        proof (cases "k = ?n")
          case True
          with nth dur gp show ?thesis by (simp add: Voter_def)
        next
          case False
          with k have k': "length (voters @ [?v]) \<le> k \<and> k < length vs" by simp
          from ih k' have
            "voting_duration (vs ! k) =
               (if stream gn (candidate_start (stream gn) pst k) \<le> pst then std
                else - ln (1 - stream gn (candidate_start (stream gn) pst k + 1))
                       / voting_duration_rate p)
           \<and> arrival_time (vs ! k) =
               (if k = length (voters @ [?v]) then cur_time + gap else arrival_time (vs ! (k - 1)))
               + (if stream gn (candidate_start (stream gn) pst k) \<le> pst
                  then - ln (1 - stream gn (candidate_start (stream gn) pst k + 1)) / arrival_rate p
                  else - ln (1 - stream gn (candidate_start (stream gn) pst k + 2)) / arrival_rate p)"
            by blast
          moreover have "(if k = length (voters @ [?v]) then cur_time + gap
                          else arrival_time (vs ! (k - 1))) = arrival_time (vs ! (k - 1))"
            using nth by (auto simp: Voter_def)
          ultimately show ?thesis using False str by simp
        qed
        from s' cn len tk0 body show ?thesis by simp
      qed
    qed
  qed
qed

lemma simulate_run:
  assumes "simulate rnd p pst std sd = Inr vs"
  shows "\<exists>voters g b.
           gen_voters p pst std [] 0 (seed rnd sd) = Inr (voters, g)
         \<and> assign_voters (VotingBooths (num_booths p)) voters = Inr (vs, b)
         \<and> length vs = length voters
         \<and> (\<forall>k<length voters. arrival_time (vs ! k) = arrival_time (voters ! k)
               \<and> voting_duration (vs ! k) = voting_duration (voters ! k))"
proof -
  from assms obtain voters g b where
    gen: "gen_voters p pst std [] 0 (seed rnd sd) = Inr (voters, g)"
    and a: "assign_voters (VotingBooths (num_booths p)) voters = Inr (vs, b)"
    by (auto simp: simulate_def split: sum.splits)
  from assign_voters_inv [OF VotingBooths_wf, of "num_booths p" voters] a
  have all: "list_all2 (\<lambda>v v'. \<exists>s. v' = update_startend_times v s \<and> arrival_time v \<le> s)
               voters vs"
    by auto
  then have l: "length vs = length voters"
    by (simp add: list_all2_lengthD)
  have "arrival_time (vs ! k) = arrival_time (voters ! k)
               \<and> voting_duration (vs ! k) = voting_duration (voters ! k)"
    if "k < length voters" for k
  proof -
    from all that obtain s where "vs ! k = update_startend_times (voters ! k) s"
      by (auto simp: list_all2_conv_all_nth)
    then show ?thesis by (simp add: update_startend_times_def)
  qed
  with gen a l show ?thesis by blast
qed

text \<open>The pool after the first \<open>k\<close> voters of any list, from an empty pool of \<open>N\<close> booths.\<close>

lemma assign_voters_pool_size:
  assumes "1 \<le> N" and "k \<le> length voters"
  shows "\<exists>vs1 b1 vs2 b2.
           assign_voters (VotingBooths N) (take k voters) = Inr (vs1, b1)
         \<and> assign_voters b1 (drop k voters) = Inr (vs2, b2)
         \<and> assign_voters (VotingBooths N) voters = Inr (vs1 @ vs2, b2)
         \<and> length vs1 = k
         \<and> maxsize (booths b1) = N
         \<and> int (length (items (booths b1))) = min N (int k)
         \<and> int (length (items (booths b1))) \<le> N"
proof -
  have m0: "maxsize (booths (VotingBooths N)) = N"
    and l0: "items (booths (VotingBooths N)) = []"
    by (simp_all add: VotingBooths_def PriorityQueue_def)
  from assign_voters_inv [OF VotingBooths_wf, of N "take k voters"] m0 l0 assms
  obtain vs1 b1 where a1: "assign_voters (VotingBooths N) (take k voters) = Inr (vs1, b1)"
    and m1: "maxsize (booths b1) = N"
    and l1: "int (length (items (booths b1))) = min N (int k)"
    and all: "list_all2 (\<lambda>v v'. \<exists>s. v' = update_startend_times v s \<and> arrival_time v \<le> s)
               (take k voters) vs1"
    by (auto simp: min_def)
  from all assms(2) have lk: "length vs1 = k"
    by (auto dest: list_all2_lengthD)
  have wf1: "maxsize (booths b1) \<le> 0 \<or> int (length (items (booths b1))) \<le> maxsize (booths b1)"
    using m1 l1 by simp
  from assign_voters_inv [OF wf1, of "drop k voters"]
  obtain vs2 b2 where a2: "assign_voters b1 (drop k voters) = Inr (vs2, b2)"
    by blast
  have "assign_voters (VotingBooths N) voters = Inr (vs1 @ vs2, b2)"
    using assign_voters_append [of "VotingBooths N" "take k voters" "drop k voters"] a1 a2
    by simp
  with a1 a2 l1 m1 lk show ?thesis by auto
qed

section \<open>The claims\<close>

text \<open>
  C1 (as the code has it). No configuration is rejected before the simulation
  starts: \<open>Precinct\<close> stores its arguments unchecked, and \<open>simulate\<close> returns a
  voter list for every configuration whose two rates are nonzero, whatever their
  sign, the duration and the number of booths. When \<open>simulate\<close> fails, it is with
  the \<open>ZeroDivisionError\<close> of an exponential draw at rate zero inside the generation
  loop, which needs \<open>max_num_voters \<ge> 1\<close>.
\<close>

theorem simulate_unvalidated:
  "(arate \<noteq> 0 \<and> vrate \<noteq> 0 \<longrightarrow>
      (\<exists>vs. simulate rnd (Precinct nm h m n arate vrate) pst std sd = Inr vs))
   \<and> (\<forall>e. simulate rnd (Precinct nm h m n arate vrate) pst std sd = Inl e \<longrightarrow>
         e = ZeroDivisionError \<and> (arate = 0 \<or> vrate = 0) \<and> 1 \<le> m)"
proof -
  have f: "arrival_rate (Precinct nm h m n arate vrate) = arate"
    "voting_duration_rate (Precinct nm h m n arate vrate) = vrate"
    "max_num_voters (Precinct nm h m n arate vrate) = m"
    by (simp_all add: Precinct_def)
  show ?thesis
    using simulate_total [of "Precinct nm h m n arate vrate" rnd pst std sd]
      simulate_error [of rnd "Precinct nm h m n arate vrate" pst std sd]
    by (auto simp: f)
qed

theorem simulate_unvalidated_witness:
  "(- 1 \<noteq> (0::real) \<and> - 1 \<noteq> (0::real))
   \<and> (\<exists>vs. simulate draws_e (Precinct ''invalid'' 1 2 0 (- 1) (- 1)) 1 (- 5) 0 = Inr vs)
   \<and> simulate draws_e (Precinct ''zero rate'' 1 2 1 0 1) 1 5 0 = Inl ZeroDivisionError
   \<and> ((0::real) = 0 \<or> (1::real) = 0) \<and> (1::int) \<le> 2"
proof -
  have z: "simulate draws_e (Precinct ''zero rate'' 1 2 1 0 1) 1 5 0 = Inl ZeroDivisionError"
    by (simp add: run_simps draws_e_def)
  from simulate_unvalidated [of "- 1" "- 1" draws_e "''invalid''" 1 2 0 1 "- 5" 0]
    simulate_unvalidated [of 0 1 draws_e "''zero rate''" 1 2 1 1 5 0] z
  show ?thesis by simp
qed

text \<open>
  C1 as stated fails: a precinct with negative rates and no booth, run with a
  negative straight-ticket duration, is simulated and returns two voters with
  negative times.
\<close>

theorem invalid_configuration_runs:
  "simulate draws_e invalid_precinct 1 (- 5) 0 =
     Inr [\<lparr>arrival_time = - 1, voting_duration = - 5, start_time = Some (- 1),
            end_time = Some (- 6)\<rparr>,
          \<lparr>arrival_time = - 2, voting_duration = - 5, start_time = Some (- 2),
            end_time = Some (- 7)\<rparr>]"
  by (simp add: run_simps invalid_precinct_def draws_e_def)

text \<open>
  C2 (as the code has it). The candidates of a run of \<open>simulate\<close> take their draws
  one after the other from the sequence seeded at its start, each in the order
  classification draw, duration draw only when the voter is split-ticket, gap draw:
  three draws for a split-ticket candidate, two for a straight-ticket one. The
  candidate after \<open>k\<close> voters starts at \<open>candidate_start\<close> of \<open>k\<close>; the \<open>k\<close>-th
  returned voter has the duration and the gap of the draws at that place; and the
  generator ends where the last candidate, recorded or dropped at closing, ends.
\<close>

theorem simulate_draws:
  assumes "simulate rnd p pst std sd = Inr vs"
  shows "\<exists>voters g.
           gen_voters p pst std [] 0 (seed rnd sd) = Inr (voters, g)
         \<and> length voters = length vs
         \<and> stream g = rnd sd
         \<and> consumed g = candidate_start (rnd sd) pst
              (if int (length vs) + 1 \<le> max_num_voters p then Suc (length vs) else length vs)
         \<and> (\<forall>k. candidate_start (rnd sd) pst (Suc k) = candidate_start (rnd sd) pst k
                   + (if rnd sd (candidate_start (rnd sd) pst k) \<le> pst then 2 else 3))
         \<and> (\<forall>k<length vs.
               voting_duration (vs ! k) =
                 (if rnd sd (candidate_start (rnd sd) pst k) \<le> pst then std
                  else - ln (1 - rnd sd (candidate_start (rnd sd) pst k + 1))
                         / voting_duration_rate p)
             \<and> arrival_time (vs ! k) =
                 (if k = 0 then 0 else arrival_time (vs ! (k - 1)))
                 + (if rnd sd (candidate_start (rnd sd) pst k) \<le> pst
                    then - ln (1 - rnd sd (candidate_start (rnd sd) pst k + 1)) / arrival_rate p
                    else - ln (1 - rnd sd (candidate_start (rnd sd) pst k + 2)) / arrival_rate p))"
proof -
  from simulate_run [OF assms] obtain voters g where
    gen: "gen_voters p pst std [] 0 (seed rnd sd) = Inr (voters, g)"
    and l: "length vs = length voters"
    and same: "\<forall>k<length voters. arrival_time (vs ! k) = arrival_time (voters ! k)
               \<and> voting_duration (vs ! k) = voting_duration (voters ! k)"
    by blast
  have start: "consumed (seed rnd sd)
      = candidate_start (stream (seed rnd sd)) pst (length ([]::voter list))"
    by (simp add: seed_def)
  note d = gen_voters_draws [OF gen start]
  from d have s: "stream g = rnd sd" by (simp add: seed_stream)
  from d have c: "consumed g = candidate_start (rnd sd) pst
              (if int (length vs) + 1 \<le> max_num_voters p then Suc (length vs) else length vs)"
    by (simp add: seed_stream l)
  have body: "voting_duration (vs ! k) =
                 (if rnd sd (candidate_start (rnd sd) pst k) \<le> pst then std
                  else - ln (1 - rnd sd (candidate_start (rnd sd) pst k + 1))
                         / voting_duration_rate p)
             \<and> arrival_time (vs ! k) =
                 (if k = 0 then 0 else arrival_time (vs ! (k - 1)))
                 + (if rnd sd (candidate_start (rnd sd) pst k) \<le> pst
                    then - ln (1 - rnd sd (candidate_start (rnd sd) pst k + 1)) / arrival_rate p
                    else - ln (1 - rnd sd (candidate_start (rnd sd) pst k + 2)) / arrival_rate p)"
    if k: "k < length vs" for k
  proof -
    from k l have kv: "k < length voters" by simp
    from d kv have v: "voting_duration (voters ! k) =
                 (if rnd sd (candidate_start (rnd sd) pst k) \<le> pst then std
                  else - ln (1 - rnd sd (candidate_start (rnd sd) pst k + 1))
                         / voting_duration_rate p)
             \<and> arrival_time (voters ! k) =
                 (if k = 0 then 0 else arrival_time (voters ! (k - 1)))
                 + (if rnd sd (candidate_start (rnd sd) pst k) \<le> pst
                    then - ln (1 - rnd sd (candidate_start (rnd sd) pst k + 1)) / arrival_rate p
                    else - ln (1 - rnd sd (candidate_start (rnd sd) pst k + 2)) / arrival_rate p)"
      by (simp add: seed_stream)
    have prev: "k \<noteq> 0 \<Longrightarrow> arrival_time (vs ! (k - 1)) = arrival_time (voters ! (k - 1))"
      using same kv by simp
    from same kv have "arrival_time (vs ! k) = arrival_time (voters ! k)"
      and "voting_duration (vs ! k) = voting_duration (voters ! k)"
      by simp_all
    with v prev show ?thesis by (cases "k = 0") simp_all
  qed
  from gen l s c body show ?thesis by auto
qed

text \<open>
  A first draw of 0 makes the first voter straight-ticket, the other two are
  split-ticket: the candidates start at the draws 0, 2 and 5, and 8 draws are used.
\<close>

theorem simulate_draws_witness:
  "simulate draws_first_zero one_booth 0 7 0 =
     Inr [\<lparr>arrival_time = 1 / 2, voting_duration = 7, start_time = Some (1 / 2),
            end_time = Some (15 / 2)\<rparr>,
          \<lparr>arrival_time = 1, voting_duration = 1, start_time = Some (15 / 2),
            end_time = Some (17 / 2)\<rparr>,
          \<lparr>arrival_time = 3 / 2, voting_duration = 1, start_time = Some (17 / 2),
            end_time = Some (19 / 2)\<rparr>]
   \<and> gen_voters one_booth 0 7 [] 0 (seed draws_first_zero 0)
       = Inr ([Voter (1 / 2) 7, Voter 1 1, Voter (3 / 2) 1],
              \<lparr>stream = draws_first_zero 0, consumed = 8\<rparr>)
   \<and> map (candidate_start (draws_first_zero 0) 0) [0, 1, 2, 3] = [0, 2, 5, 8]
   \<and> (\<exists>voters g.
         gen_voters one_booth 0 7 [] 0 (seed draws_first_zero 0) = Inr (voters, g)
       \<and> consumed g = candidate_start (draws_first_zero 0) 0 3)"
proof -
  let ?vs = "[\<lparr>arrival_time = 1 / 2, voting_duration = 7, start_time = Some (1 / 2),
            end_time = Some (15 / 2)\<rparr>,
          \<lparr>arrival_time = 1, voting_duration = 1, start_time = Some (15 / 2),
            end_time = Some (17 / 2)\<rparr>,
          \<lparr>arrival_time = 3 / 2, voting_duration = 1, start_time = Some (17 / 2),
            end_time = Some (19 / 2::real)\<rparr>]"
  have e: "simulate draws_first_zero one_booth 0 7 0 = Inr ?vs"
    by (simp add: run_simps one_booth_def draws_first_zero_def)
  have gv: "gen_voters one_booth 0 7 [] 0 (seed draws_first_zero 0)
       = Inr ([Voter (1 / 2) 7, Voter 1 1, Voter (3 / 2) 1],
              \<lparr>stream = draws_first_zero 0, consumed = 8\<rparr>)"
    by (simp add: gen_voters.simps candidate_def random_def expovariate_def seed_def
        one_booth_def Precinct_def draws_first_zero_def Voter_def)
  have cs: "map (candidate_start (draws_first_zero 0) 0) [0, 1, 2, 3] = [0, 2, 5, 8]"
    by (simp add: eval_nat_numeral draws_first_zero_def)
  have n: "(if int (length ?vs) + 1 \<le> max_num_voters one_booth
            then Suc (length ?vs) else length ?vs) = 3"
    by (simp add: one_booth_def Precinct_def)
  from simulate_draws [OF e] obtain voters g where
    g1: "gen_voters one_booth 0 7 [] 0 (seed draws_first_zero 0) = Inr (voters, g)"
    and g2: "consumed g = candidate_start (draws_first_zero 0) 0
              (if int (length ?vs) + 1 \<le> max_num_voters one_booth
               then Suc (length ?vs) else length ?vs)"
    by blast
  from g2 have "consumed g = candidate_start (draws_first_zero 0) 0 3"
    by (simp only: n)
  with g1 e gv cs show ?thesis by blast
qed

text \<open>
  C2 as stated fails: with \<open>percent_straight_ticket = 1\<close> the candidate is
  straight-ticket and the generator has advanced by two draws, not three.
\<close>

theorem straight_ticket_two_draws:
  "candidate one_booth 1 2 (seed draws_e 0) = Inr (2, 1 / 2, \<lparr>stream = draws_e 0, consumed = 2\<rparr>)"
  by (simp add: candidate_def random_def expovariate_def seed_def one_booth_def Precinct_def
      draws_e_def)

text \<open>
  C3 (as the code has it). When some trial among the \<open>ntrials\<close> runs yields zero
  voters, \<open>find_avg_wait_time\<close> raises a plain \<open>ZeroDivisionError\<close>: that of
  \<open>sum(wait_times) / len(wait_times)\<close> on the empty trial, unless an earlier trial
  already divided by a rate of zero. The source has no error of its own for an
  empty trial.
\<close>

theorem empty_trial_division:
  assumes "k < nat ntrials"
    and "simulate rnd (Precinct (pd_name d) (pd_hours_open d) (pd_num_voters d)
           (pd_num_booths d) (pd_arrival_rate d) (pd_voting_duration_rate d))
           pst (pd_straight_ticket_duration d) (initial_seed + int k) = Inr []"
  shows "find_avg_wait_time rnd d pst ntrials initial_seed = Inl ZeroDivisionError"
  using trials_empty [OF assms, of "[]"] by (simp add: find_avg_wait_time_def)

theorem empty_trial_division_witness:
  "(0::nat) < nat 1
   \<and> simulate draws_e (Precinct (pd_name quiet_precinct) (pd_hours_open quiet_precinct)
           (pd_num_voters quiet_precinct) (pd_num_booths quiet_precinct)
           (pd_arrival_rate quiet_precinct) (pd_voting_duration_rate quiet_precinct))
           0 (pd_straight_ticket_duration quiet_precinct) (0 + int 0) = Inr []
   \<and> find_avg_wait_time draws_e quiet_precinct 0 1 0 = Inl ZeroDivisionError"
proof -
  have h1: "(0::nat) < nat 1" by simp
  have h2: "simulate draws_e (Precinct (pd_name quiet_precinct) (pd_hours_open quiet_precinct)
           (pd_num_voters quiet_precinct) (pd_num_booths quiet_precinct)
           (pd_arrival_rate quiet_precinct) (pd_voting_duration_rate quiet_precinct))
           0 (pd_straight_ticket_duration quiet_precinct) (0 + int 0) = Inr []"
    by (simp add: run_simps quiet_precinct_def draws_e_def)
  from empty_trial_division [OF h1 h2] h1 h2 show ?thesis by blast
qed

text \<open>
  C3 as stated fails: a precinct whose first voter would arrive after closing has an
  empty trial, and the result is the raw division error.
\<close>

theorem empty_trial_raw_division:
  "find_avg_wait_time draws_e quiet_precinct 0 1 0 = Inl ZeroDivisionError"
  by (simp add: trial_simps run_simps quiet_precinct_def draws_e_def)

text \<open>
  C4. With \<open>percent_straight_ticket = 0\<close> every voter should take the exponential
  duration. The comparison on line 96 is \<open><=\<close>, so a classification draw of exactly
  \<open>0.0\<close> is straight-ticket even then: the first voter below has the fixed duration
  7, the other two the exponential duration 1.
\<close>

theorem zero_draw_is_straight_ticket:
  "simulate draws_first_zero one_booth 0 7 0 =
     Inr [\<lparr>arrival_time = 1 / 2, voting_duration = 7, start_time = Some (1 / 2),
            end_time = Some (15 / 2)\<rparr>,
          \<lparr>arrival_time = 1, voting_duration = 1, start_time = Some (15 / 2),
            end_time = Some (17 / 2)\<rparr>,
          \<lparr>arrival_time = 3 / 2, voting_duration = 1, start_time = Some (17 / 2),
            end_time = Some (19 / 2)\<rparr>]"
  by (simp add: run_simps one_booth_def draws_first_zero_def)

text \<open>
  What does hold: with \<open>percent_straight_ticket = 1\<close> every draw below 1 is
  straight-ticket, and with \<open>percent_straight_ticket = 0\<close> every positive draw is
  split-ticket; only the draw \<open>0\<close> is routed against the fraction.
\<close>

lemma candidate_all_straight:
  "stream g (consumed g) < 1 \<Longrightarrow> candidate p 1 std g = Inr (d, gap, g') \<Longrightarrow> d = std"
  by (simp add: candidate_random split: if_splits)

lemma candidate_all_split:
  "0 < stream g (consumed g) \<Longrightarrow> candidate p 0 std g = Inr (d, gap, g')
     \<Longrightarrow> d = - ln (1 - stream g (Suc (consumed g))) / voting_duration_rate p"
  by (simp add: candidate_random split: if_splits)

lemma candidate_zero_draw:
  "stream g (consumed g) = 0 \<Longrightarrow> candidate p 0 std g = Inr (d, gap, g') \<Longrightarrow> d = std"
  by (simp add: candidate_random split: if_splits)



text \<open>
  C6. For \<open>ntrials \<ge> 1\<close>, when every trial with a seed from \<open>initial_seed\<close> to
  \<open>initial_seed + ntrials - 1\<close> yields at least one voter, \<open>find_avg_wait_time\<close>
  returns the element at index \<open>ntrials div 2\<close> of the sorted list of the trials'
  means of \<open>start_time - arrival_time\<close>; the averages 1, 3, 2, 5, 4 with five
  trials give 3.
\<close>

theorem median_of_trial_means:
  assumes "1 \<le> ntrials"
    and "\<forall>k<nat ntrials. \<exists>vs.
           simulate rnd (Precinct (pd_name d) (pd_hours_open d) (pd_num_voters d)
             (pd_num_booths d) (pd_arrival_rate d) (pd_voting_duration_rate d))
             pst (pd_straight_ticket_duration d) (initial_seed + int k) = Inr vs \<and> vs \<noteq> []"
  shows "find_avg_wait_time rnd d pst ntrials initial_seed
           = Inr (sort (map (\<lambda>k. average_wait (projr
                   (simulate rnd (Precinct (pd_name d) (pd_hours_open d) (pd_num_voters d)
                      (pd_num_booths d) (pd_arrival_rate d) (pd_voting_duration_rate d))
                      pst (pd_straight_ticket_duration d) (initial_seed + int k))))
                 [0..<nat ntrials]) ! nat (ntrials div 2))
       \<and> median [1, 3, 2, 5, 4] 5 = Inr 3"
proof -
  have "0 \<le> ntrials div 2" and "ntrials div 2 < int (nat ntrials)"
    using assms(1) by simp_all
  then have "find_avg_wait_time rnd d pst ntrials initial_seed
           = Inr (sort (map (\<lambda>k. average_wait (projr
                   (simulate rnd (Precinct (pd_name d) (pd_hours_open d) (pd_num_voters d)
                      (pd_num_booths d) (pd_arrival_rate d) (pd_voting_duration_rate d))
                      pst (pd_straight_ticket_duration d) (initial_seed + int k))))
                 [0..<nat ntrials]) ! nat (ntrials div 2))"
    using trials_success [OF assms(2), of "[]"]
    by (simp add: find_avg_wait_time_def median_def index_def)
  moreover have "median [1, 3, 2, 5, 4] 5 = Inr 3"
    by (simp add: median_def index_def)
  ultimately show ?thesis by blast
qed

text \<open>Five trials whose averages are 1, 3, 2, 5 and 4, in the order of the seeds.\<close>

theorem median_of_trial_means_witness:
  "(1::int) \<le> 5
   \<and> map (\<lambda>k. average_wait (projr (simulate draws_trials
           (Precinct (pd_name two_voters) (pd_hours_open two_voters) (pd_num_voters two_voters)
              (pd_num_booths two_voters) (pd_arrival_rate two_voters)
              (pd_voting_duration_rate two_voters))
           0 (pd_straight_ticket_duration two_voters) (0 + int k)))) [0, 1, 2, 3, 4]
       = [1, 3, 2, 5, 4]
   \<and> find_avg_wait_time draws_trials two_voters 0 5 0 = Inr 3"
proof -
  have h1: "(1::int) \<le> 5" by simp
  have h2: "\<forall>k<nat 5. \<exists>vs.
         simulate draws_trials
           (Precinct (pd_name two_voters) (pd_hours_open two_voters) (pd_num_voters two_voters)
              (pd_num_booths two_voters) (pd_arrival_rate two_voters)
              (pd_voting_duration_rate two_voters))
           0 (pd_straight_ticket_duration two_voters) (0 + int k) = Inr vs \<and> vs \<noteq> []"
  proof (intro allI impI)
    fix k :: nat assume "k < nat 5"
    then have "k = 0 \<or> k = 1 \<or> k = 2 \<or> k = 3 \<or> k = 4" by auto
    then show "\<exists>vs.
         simulate draws_trials
           (Precinct (pd_name two_voters) (pd_hours_open two_voters) (pd_num_voters two_voters)
              (pd_num_booths two_voters) (pd_arrival_rate two_voters)
              (pd_voting_duration_rate two_voters))
           0 (pd_straight_ticket_duration two_voters) (0 + int k) = Inr vs \<and> vs \<noteq> []"
      by (elim disjE) (simp_all add: run_simps two_voters_def draws_trials_def)
  qed
  have m: "map (\<lambda>k. average_wait (projr (simulate draws_trials
           (Precinct (pd_name two_voters) (pd_hours_open two_voters) (pd_num_voters two_voters)
              (pd_num_booths two_voters) (pd_arrival_rate two_voters)
              (pd_voting_duration_rate two_voters))
           0 (pd_straight_ticket_duration two_voters) (0 + int k)))) [0, 1, 2, 3, 4]
       = [1, 3, 2, 5, 4]"
    by (simp add: average_wait_def run_simps two_voters_def draws_trials_def)
  have r: "find_avg_wait_time draws_trials two_voters 0 5 0 = Inr 3"
    by (simp add: find_avg_wait_time_def trials_five mean_def run_simps two_voters_def
        draws_trials_def) (simp add: median_def index_def)
  from median_of_trial_means [OF h1 h2] h1 m r show ?thesis by blast
qed

text \<open>
  C7. Every voter in the sequence returned by \<open>simulate\<close> has a start time that is
  not before the arrival time, and an end time equal to the start time plus the
  voting duration.
\<close>

theorem simulate_causality:
  assumes "simulate rnd p pst std sd = Inr vs"
  shows "\<forall>v\<in>set vs. \<exists>s. start_time v = Some s \<and> arrival_time v \<le> s
           \<and> end_time v = Some (s + voting_duration v)"
  using assms by (rule simulate_voters)

text \<open>Three voters, one booth: the second and third voters wait.\<close>

theorem simulate_causality_witness:
  "simulate draws_e one_booth 0 2 0 =
       Inr [\<lparr>arrival_time = 1 / 2, voting_duration = 1, start_time = Some (1 / 2),
              end_time = Some (3 / 2)\<rparr>,
            \<lparr>arrival_time = 1, voting_duration = 1, start_time = Some (3 / 2),
              end_time = Some (5 / 2)\<rparr>,
            \<lparr>arrival_time = 3 / 2, voting_duration = 1, start_time = Some (5 / 2),
              end_time = Some (7 / 2)\<rparr>]
   \<and> (\<exists>vs. simulate draws_e one_booth 0 2 0 = Inr vs \<and> vs \<noteq> []
         \<and> (\<forall>v\<in>set vs. \<exists>s. start_time v = Some s \<and> arrival_time v \<le> s
               \<and> end_time v = Some (s + voting_duration v)))"
proof -
  have e: "simulate draws_e one_booth 0 2 0 =
       Inr [\<lparr>arrival_time = 1 / 2, voting_duration = 1, start_time = Some (1 / 2),
              end_time = Some (3 / 2)\<rparr>,
            \<lparr>arrival_time = 1, voting_duration = 1, start_time = Some (3 / 2),
              end_time = Some (5 / 2)\<rparr>,
            \<lparr>arrival_time = 3 / 2, voting_duration = 1, start_time = Some (5 / 2),
              end_time = Some (7 / 2)\<rparr>]"
    by (simp add: run_simps one_booth_def draws_e_def)
  from simulate_causality [OF e] e show ?thesis by blast
qed

text \<open>
  C8 (as the code has it). For a configuration with a positive arrival rate and a
  non-negative voter bound, and draws in \<open>[0, 1)\<close> as \<open>random.random()\<close> returns
  them: the arrival times of the returned voters are non-decreasing and lie in
  \<open>[0, minutes_open]\<close>, there are at most \<open>max_num_voters\<close> voters, and a candidate
  whose clock exceeds \<open>minutes_open\<close> ends the loop without being recorded.
\<close>

theorem simulate_arrivals:
  assumes "simulate rnd p pst std sd = Inr vs"
    and "0 < arrival_rate p" and "0 \<le> max_num_voters p"
    and "\<forall>i. 0 \<le> rnd sd i \<and> rnd sd i < 1"
  shows "sorted (map arrival_time vs)
       \<and> (\<forall>v\<in>set vs. 0 \<le> arrival_time v \<and> arrival_time v \<le> real_of_int (minutes_open p))
       \<and> int (length vs) \<le> max_num_voters p
       \<and> (\<forall>voters t g d gap g'.
             int (length voters) + 1 \<le> max_num_voters p
             \<and> candidate p pst std g = Inr (d, gap, g')
             \<and> t + gap > real_of_int (minutes_open p)
             \<longrightarrow> gen_voters p pst std voters t g = Inr (voters, g'))"
proof -
  from assms(1) obtain voters g b where
    gen: "gen_voters p pst std [] 0 (seed rnd sd) = Inr (voters, g)"
    and a: "assign_voters (VotingBooths (num_booths p)) voters = Inr (vs, b)"
    by (auto simp: simulate_def split: sum.splits)
  have str: "\<forall>i. 0 \<le> stream (seed rnd sd) i \<and> stream (seed rnd sd) i < 1"
    using assms(4) by (simp add: seed_stream)
  from gen_voters_arrivals [OF gen assms(2) str] assms(3)
  have srt: "sorted (map arrival_time voters)"
    and rng: "\<forall>v\<in>set voters. 0 \<le> arrival_time v
                \<and> arrival_time v \<le> real_of_int (minutes_open p)"
    and len: "int (length voters) \<le> max_num_voters p"
    by auto
  from assign_voters_inv [OF VotingBooths_wf, of "num_booths p" voters] a
  have all: "list_all2 (\<lambda>v v'. \<exists>s. v' = update_startend_times v s \<and> arrival_time v \<le> s)
               voters vs"
    by auto
  then have "list_all2 (\<lambda>v v'. arrival_time v = arrival_time v') voters vs"
    by (rule list_all2_mono) (auto simp: update_startend_times_def)
  then have arr: "map arrival_time vs = map arrival_time voters"
    by (simp add: list_all2_conv_all_nth list_eq_iff_nth_eq)
  have l: "length vs = length voters"
    using all by (simp add: list_all2_lengthD)
  have rng': "\<forall>v\<in>set vs. 0 \<le> arrival_time v \<and> arrival_time v \<le> real_of_int (minutes_open p)"
  proof
    fix v assume "v \<in> set vs"
    then have "arrival_time v \<in> set (map arrival_time voters)"
      using arr by (metis imageI set_map)
    with rng show "0 \<le> arrival_time v \<and> arrival_time v \<le> real_of_int (minutes_open p)"
      by auto
  qed
  from srt arr rng' len l show ?thesis
    by (auto simp: gen_voters_break)
qed

text \<open>One arrival every 40 minutes, one hour open: the second candidate is dropped.\<close>

theorem simulate_arrivals_witness:
  "simulate draws_e slow_arrivals 0 2 0 =
     Inr [\<lparr>arrival_time = 40, voting_duration = 1, start_time = Some 40,
            end_time = Some 41\<rparr>]
   \<and> 0 < arrival_rate slow_arrivals \<and> 0 \<le> max_num_voters slow_arrivals
   \<and> (\<forall>i. 0 \<le> draws_e 0 i \<and> draws_e 0 i < 1)
   \<and> sorted (map arrival_time
        [\<lparr>arrival_time = 40, voting_duration = 1, start_time = Some 40,
           end_time = Some 41\<rparr>])
   \<and> int (length
        [\<lparr>arrival_time = 40, voting_duration = 1, start_time = Some (40::real),
           end_time = Some 41\<rparr>]) \<le> max_num_voters slow_arrivals
   \<and> gen_voters slow_arrivals 0 2 [Voter 40 1] 40 \<lparr>stream = draws_e 0, consumed = 3\<rparr>
       = Inr ([Voter 40 1], \<lparr>stream = draws_e 0, consumed = 6\<rparr>)"
proof -
  have e: "simulate draws_e slow_arrivals 0 2 0 =
     Inr [\<lparr>arrival_time = 40, voting_duration = 1, start_time = Some 40,
            end_time = Some 41\<rparr>]"
    by (simp add: run_simps slow_arrivals_def draws_e_def)
  have r: "0 < arrival_rate slow_arrivals" and m: "0 \<le> max_num_voters slow_arrivals"
    by (simp_all add: slow_arrivals_def Precinct_def)
  have d: "\<forall>i. 0 \<le> draws_e 0 i \<and> draws_e 0 i < 1"
    by (simp add: draws_e_def)
  have c: "candidate slow_arrivals 0 2 \<lparr>stream = draws_e 0, consumed = 3\<rparr>
             = Inr (1, 40, \<lparr>stream = draws_e 0, consumed = 6\<rparr>)"
    by (simp add: candidate_def random_def expovariate_def slow_arrivals_def Precinct_def
        draws_e_def)
  have l: "int (length [Voter 40 1]) + 1 \<le> max_num_voters slow_arrivals"
    and t: "(40::real) + 40 > real_of_int (minutes_open slow_arrivals)"
    by (simp_all add: slow_arrivals_def Precinct_def)
  from simulate_arrivals [OF e r m d] e r m d c l t show ?thesis
    by blast
qed

text \<open>
  C8 as stated, for every configuration, fails: the source accepts a negative arrival
  rate, the gaps are then negative and the arrival times decrease below 0.
\<close>

theorem negative_rate_arrivals:
  "simulate draws_e negative_rate 1 5 0 =
     Inr [\<lparr>arrival_time = - 1, voting_duration = 5, start_time = Some (- 1),
            end_time = Some 4\<rparr>,
          \<lparr>arrival_time = - 2, voting_duration = 5, start_time = Some 4,
            end_time = Some 9\<rparr>]
   \<and> \<not> sorted (map arrival_time
         [\<lparr>arrival_time = - 1, voting_duration = 5, start_time = Some (- 1),
            end_time = Some 4\<rparr>,
          \<lparr>arrival_time = - 2, voting_duration = 5, start_time = Some 4,
            end_time = Some (9::real)\<rparr>])
   \<and> \<not> (0::real) \<le> - 1"
  by (simp add: run_simps negative_rate_def draws_e_def)

text \<open>
  C9. In a run of \<open>simulate\<close> on a precinct with \<open>num_booths = N \<ge> 1\<close>, the pool
  never holds more than \<open>N\<close> free-times during the assignment loop, and after \<open>k\<close>
  of the generated voters have been assigned it holds exactly \<open>min N k\<close>. The state
  after \<open>k\<close> voters is the one the loop reaches on the first \<open>k\<close> generated voters,
  from the empty pool of \<open>num_booths\<close> booths; the loop continues from it on the
  remaining voters, and what \<open>simulate\<close> returns is the voters of both parts.
\<close>

theorem booth_pool_size:
  assumes "1 \<le> num_booths p"
    and "gen_voters p pst std [] 0 (seed rnd sd) = Inr (voters, g)"
    and "k \<le> length voters"
  shows "\<exists>vs1 b1 vs2 b2.
           assign_voters (VotingBooths (num_booths p)) (take k voters) = Inr (vs1, b1)
         \<and> assign_voters b1 (drop k voters) = Inr (vs2, b2)
         \<and> simulate rnd p pst std sd = Inr (vs1 @ vs2)
         \<and> length vs1 = k
         \<and> maxsize (booths b1) = num_booths p
         \<and> int (length (items (booths b1))) = min (num_booths p) (int k)
         \<and> int (length (items (booths b1))) \<le> num_booths p"
proof -
  from assign_voters_pool_size [OF assms(1,3)]
  obtain vs1 b1 vs2 b2 where
    a1: "assign_voters (VotingBooths (num_booths p)) (take k voters) = Inr (vs1, b1)"
    and a2: "assign_voters b1 (drop k voters) = Inr (vs2, b2)"
    and a: "assign_voters (VotingBooths (num_booths p)) voters = Inr (vs1 @ vs2, b2)"
    and rest: "length vs1 = k" "maxsize (booths b1) = num_booths p"
      "int (length (items (booths b1))) = min (num_booths p) (int k)"
      "int (length (items (booths b1))) \<le> num_booths p"
    by blast
  from assms(2) a have "simulate rnd p pst std sd = Inr (vs1 @ vs2)"
    by (simp add: simulate_def)
  with a1 a2 rest show ?thesis by blast
qed

theorem booth_pool_size_witness:
  "(1::int) \<le> num_booths two_booths
   \<and> gen_voters two_booths 0 2 [] 0 (seed draws_e 0)
       = Inr ([Voter (1 / 2) 1, Voter 1 1, Voter (3 / 2) 1],
              \<lparr>stream = draws_e 0, consumed = 9\<rparr>)
   \<and> (3::nat) \<le> length [Voter (1 / 2) 1, Voter 1 1, Voter (3 / 2) 1]
   \<and> (\<exists>vs1 b1 vs2 b2.
           assign_voters (VotingBooths (num_booths two_booths))
             (take 3 [Voter (1 / 2) 1, Voter 1 1, Voter (3 / 2) 1]) = Inr (vs1, b1)
         \<and> assign_voters b1 (drop 3 [Voter (1 / 2) 1, Voter 1 1, Voter (3 / 2) 1]) = Inr (vs2, b2)
         \<and> simulate draws_e two_booths 0 2 0 = Inr (vs1 @ vs2)
         \<and> length vs1 = 3
         \<and> maxsize (booths b1) = num_booths two_booths
         \<and> int (length (items (booths b1))) = min (num_booths two_booths) (int 3)
         \<and> int (length (items (booths b1))) \<le> num_booths two_booths)
   \<and> min (num_booths two_booths) (int 3) = 2"
proof -
  have h1: "(1::int) \<le> num_booths two_booths"
    by (simp add: two_booths_def Precinct_def)
  have h2: "gen_voters two_booths 0 2 [] 0 (seed draws_e 0)
       = Inr ([Voter (1 / 2) 1, Voter 1 1, Voter (3 / 2) 1],
              \<lparr>stream = draws_e 0, consumed = 9\<rparr>)"
    by (simp add: gen_voters.simps candidate_def random_def expovariate_def seed_def
        two_booths_def Precinct_def draws_e_def Voter_def)
  have h3: "(3::nat) \<le> length [Voter (1 / 2) 1, Voter 1 1, Voter (3 / 2) 1]"
    by simp
  have m: "min (num_booths two_booths) (int 3) = 2"
    by (simp add: two_booths_def Precinct_def)
  from booth_pool_size [OF h1 h2 h3] h1 h2 h3 m show ?thesis by blast
qed

text \<open>
  C10. With \<open>num_booths = 0\<close> the pool never reports full, \<open>simulate\<close> fails only
  where the generation loop fails, and every generated voter starts at its own
  arrival time.
\<close>

theorem zero_booths:
  assumes "num_booths p = 0"
  shows "(\<forall>b. maxsize (booths b) = num_booths p \<longrightarrow> \<not> full b)
       \<and> (\<forall>voters g. gen_voters p pst std [] 0 (seed rnd sd) = Inr (voters, g) \<longrightarrow>
            simulate rnd p pst std sd
              = Inr (map (\<lambda>v. update_startend_times v (arrival_time v)) voters))
       \<and> (arrival_rate p \<noteq> 0 \<and> voting_duration_rate p \<noteq> 0 \<longrightarrow>
            (\<exists>vs. simulate rnd p pst std sd = Inr vs
               \<and> (\<forall>v\<in>set vs. start_time v = Some (arrival_time v))))"
proof -
  have nofull: "\<forall>b. maxsize (booths b) = num_booths p \<longrightarrow> \<not> full b"
    using assms by (simp add: full_def pq_full_def)
  have sim: "simulate rnd p pst std sd
              = Inr (map (\<lambda>v. update_startend_times v (arrival_time v)) voters)"
    if gen: "gen_voters p pst std [] 0 (seed rnd sd) = Inr (voters, g)" for voters g
  proof -
    have m0: "maxsize (booths (VotingBooths (num_booths p))) \<le> 0"
      using assms by (simp add: VotingBooths_def PriorityQueue_def)
    from assign_voters_inv [OF VotingBooths_wf, of "num_booths p" voters] m0
    obtain b' where "assign_voters (VotingBooths (num_booths p)) voters
        = Inr (map (\<lambda>v. update_startend_times v (arrival_time v)) voters, b')"
      by auto
    with gen show ?thesis by (simp add: simulate_def)
  qed
  have run: "\<exists>vs. simulate rnd p pst std sd = Inr vs
               \<and> (\<forall>v\<in>set vs. start_time v = Some (arrival_time v))"
    if rates: "arrival_rate p \<noteq> 0" "voting_duration_rate p \<noteq> 0"
  proof -
    from gen_voters_total [OF rates, of pst std "[]" 0 "seed rnd sd"]
    obtain voters g where gen: "gen_voters p pst std [] 0 (seed rnd sd) = Inr (voters, g)"
      by blast
    from sim [OF gen] show ?thesis
      by (auto simp: update_startend_times_def)
  qed
  from nofull sim run show ?thesis by blast
qed

theorem zero_booths_witness:
  "num_booths no_booth = 0
   \<and> simulate draws_e no_booth 0 2 0 =
       Inr [\<lparr>arrival_time = 1 / 2, voting_duration = 1, start_time = Some (1 / 2),
              end_time = Some (3 / 2)\<rparr>,
            \<lparr>arrival_time = 1, voting_duration = 1, start_time = Some 1,
              end_time = Some 2\<rparr>,
            \<lparr>arrival_time = 3 / 2, voting_duration = 1, start_time = Some (3 / 2),
              end_time = Some (5 / 2)\<rparr>]
   \<and> (\<exists>vs. simulate draws_e no_booth 0 2 0 = Inr vs
         \<and> (\<forall>v\<in>set vs. start_time v = Some (arrival_time v)))"
proof -
  have h: "num_booths no_booth = 0" by (simp add: no_booth_def Precinct_def)
  have r: "arrival_rate no_booth \<noteq> 0 \<and> voting_duration_rate no_booth \<noteq> 0"
    by (simp add: no_booth_def Precinct_def)
  have e: "simulate draws_e no_booth 0 2 0 =
       Inr [\<lparr>arrival_time = 1 / 2, voting_duration = 1, start_time = Some (1 / 2),
              end_time = Some (3 / 2)\<rparr>,
            \<lparr>arrival_time = 1, voting_duration = 1, start_time = Some 1,
              end_time = Some 2\<rparr>,
            \<lparr>arrival_time = 3 / 2, voting_duration = 1, start_time = Some (3 / 2),
              end_time = Some (5 / 2)\<rparr>]"
    by (simp add: run_simps no_booth_def draws_e_def)
  from zero_booths [OF h, of 0 2 draws_e 0] r h e show ?thesis by blast
qed

end
